theory Spec2Isabelle
  imports Complex_Main "HOL-Library.Char_ord" "HOL-Library.List_Lexorder"
begin

section \<open>Values of the pipeline\<close>

text \<open>
  The pipeline of \<^verbatim>\<open>main.py\<close> has three stages of its own: \<^verbatim>\<open>load_data\<close>
  (\<^verbatim>\<open>src/data_preprocessing.py\<close>), \<^verbatim>\<open>find_top_similar\<close> (\<^verbatim>\<open>src/similarity.py\<close>) and
  \<^verbatim>\<open>filter_non_similar\<close> (\<^verbatim>\<open>src/filtering_non_similar_companies.py\<close>). Every Python
  exception is a value of \<open>error\<close>; a function that can raise returns \<open>error + 'a\<close>.
\<close>

datatype error = KeyError | AttributeError | TypeError | ValueError | RuntimeError | IndexError

text \<open>
  What the code takes from its libraries and does not define itself is a field of
  \<open>library\<close>: \<^verbatim>\<open>str.lower\<close>, nltk's \<^verbatim>\<open>sent_tokenize\<close>, the embedding of one sentence by
  the sentence-transformer model (\<^verbatim>\<open>model.encode\<close> maps it over a list), and the order
  in which \<^verbatim>\<open>torch.topk\<close> returns two candidates of equal score, which its
  documentation leaves open: \<open>tie_first lib i j\<close> says that index \<open>i\<close> comes out before
  index \<open>j\<close> when their scores are equal.

  Tensor entries are real numbers, and a tensor of shape \<open>[n, d]\<close> is a list of \<open>n\<close>
  vectors. For the ranker the scores are the exact cosines. The filter compares a score
  with a threshold, where the last bit of the 32-bit result decides, so there the score is
  the number the library computes: \<open>float_cosine lib u v\<close> is the entry of
  \<^verbatim>\<open>util.cos_sim\<close> for the vectors \<open>u\<close> and \<open>v\<close> as torch computes it in 32-bit
  floating point, read by \<^verbatim>\<open>.item()\<close> as the real number it denotes.
\<close>

record library =
  str_lower :: "string \<Rightarrow> string"
  sent_tokenize :: "string \<Rightarrow> string list"
  encode :: "string \<Rightarrow> real list"
  tie_first :: "nat \<Rightarrow> nat \<Rightarrow> bool"
  float_cosine :: "real list \<Rightarrow> real list \<Rightarrow> real"

text \<open>\<^verbatim>\<open>encode_sentences\<close> of \<^verbatim>\<open>src/embedding.py\<close>: one vector per sentence, in order.\<close>

definition encode_sentences :: "library \<Rightarrow> string list \<Rightarrow> real list list" where
  "encode_sentences lib sentences = map (encode lib) sentences"

text \<open>
  The encoder has one output dimension for all sentences (\<^verbatim>\<open>model.encode\<close> stacks the
  vectors into one tensor).
\<close>

definition embedding_dim :: "library \<Rightarrow> nat \<Rightarrow> bool" where
  "embedding_dim lib d = (\<forall>s. length (encode lib s) = d)"

section \<open>Cosine similarity\<close>

text \<open>
  \<^verbatim>\<open>util.cos_sim(a, b)\<close> of sentence-transformers: both arguments are made batches (a
  one-dimensional tensor becomes a batch of one vector; the empty tensor that
  \<^verbatim>\<open>model.encode([])\<close> returns has shape \<open>[0]\<close> and becomes one vector of dimension 0),
  every vector is divided by \<open>max(norm, 1e-12)\<close> (\<^verbatim>\<open>torch.nn.functional.normalize\<close>), and
  the result is the matrix product of the first batch with the transpose of the second,
  which raises \<^verbatim>\<open>RuntimeError\<close> when the dimensions differ.
\<close>

definition dot :: "real list \<Rightarrow> real list \<Rightarrow> real" where
  "dot u v = sum_list (map (\<lambda>(x, y). x * y) (zip u v))"

definition norm2 :: "real list \<Rightarrow> real" where
  "norm2 v = sqrt (dot v v)"

definition normalize :: "real list \<Rightarrow> real list" where
  "normalize v = map (\<lambda>x. x / max (norm2 v) (1 / 10 ^ 12)) v"

definition cosine :: "real list \<Rightarrow> real list \<Rightarrow> real" where
  "cosine u v = dot (normalize u) (normalize v)"

definition to_batch :: "real list list \<Rightarrow> real list list" where
  "to_batch t = (if t = [] then [[]] else t)"

definition cos_sim :: "real list list \<Rightarrow> real list list \<Rightarrow> error + real list list" where
  "cos_sim a b =
     (let a' = to_batch a; b' = to_batch b
      in if list_all (\<lambda>u. list_all (\<lambda>v. length u = length v) b') a'
         then Inr (map (\<lambda>u. map (cosine u) b') a')
         else Inl RuntimeError)"

text \<open>\<^verbatim>\<open>m[0]\<close>: the first row of a matrix.\<close>

definition first_row :: "'a list \<Rightarrow> error + 'a" where
  "first_row m = (case m of [] \<Rightarrow> Inl IndexError | r # _ \<Rightarrow> Inr r)"

text \<open>\<^verbatim>\<open>t.max()\<close> of a one-dimensional tensor; torch raises on an empty one.\<close>

definition tensor_max :: "real list \<Rightarrow> error + real" where
  "tensor_max t = (case t of [] \<Rightarrow> Inl RuntimeError | x # xs \<Rightarrow> Inr (fold max xs x))"

section \<open>The non-similarity filter\<close>

text \<open>
  A row of the sentence table \<^verbatim>\<open>df_expanded\<close>, with the three columns the ranker and
  the filter read. Further columns (\<^verbatim>\<open>cleaned_description\<close>) are the record's extension.
  The three cells are strings: the ranker and the filter are modelled on tables without
  missing cells.
\<close>

record sentence_row =
  company_name :: string
  business_description :: string
  individual_sentences :: string

text \<open>
  The scores the filter reads: \<^verbatim>\<open>util.cos_sim\<close> fails where \<open>cos_sim\<close> fails, and its
  entries are the library's 32-bit results.
\<close>

definition cos_sim_float32 ::
  "library \<Rightarrow> real list list \<Rightarrow> real list list \<Rightarrow> error + real list list" where
  "cos_sim_float32 lib a b =
     (case cos_sim a b of
        Inl e \<Rightarrow> Inl e
      | Inr _ \<Rightarrow> Inr (map (\<lambda>u. map (float_cosine lib u) (to_batch b)) (to_batch a)))"

text \<open>
  \<^verbatim>\<open>is_similar_to_non_similar(description_embedding, non_similar_embeddings, threshold=0.6)\<close>.
  The default is the Python float \<^verbatim>\<open>0.6\<close>, the double \<open>5404319552844595 / 2^53\<close>.
\<close>

definition default_threshold :: real where
  "default_threshold = 5404319552844595 / 9007199254740992"

definition is_similar_to_non_similar ::
  "library \<Rightarrow> real list \<Rightarrow> real list list \<Rightarrow> real \<Rightarrow> error + bool" where
  "is_similar_to_non_similar lib description_embedding non_similar_embeddings threshold =
     (case cos_sim_float32 lib [description_embedding] non_similar_embeddings of
        Inl e \<Rightarrow> Inl e
      | Inr m \<Rightarrow>
          (case first_row m of
             Inl e \<Rightarrow> Inl e
           | Inr cosine_scores \<Rightarrow>
               (case tensor_max cosine_scores of
                  Inl e \<Rightarrow> Inl e
                | Inr best \<Rightarrow> Inr (threshold \<le> best))))"

text \<open>
  The inner loop of \<^verbatim>\<open>filter_non_similar\<close>: the embeddings of one company's sentences
  are tested in order, each by \<^verbatim>\<open>is_similar_to_non_similar(embedding, non_similar_embeddings)\<close>,
  which leaves the threshold at its default, and the loop stops at the first similar one
  (\<^verbatim>\<open>break\<close>). The result says whether the company is to be excluded.
\<close>

fun scan_group :: "library \<Rightarrow> real list list \<Rightarrow> real list list \<Rightarrow> error + bool" where
  "scan_group lib [] non_similar_embeddings = Inr False"
| "scan_group lib (embedding # rest) non_similar_embeddings =
     (case is_similar_to_non_similar lib embedding non_similar_embeddings default_threshold of
        Inl e \<Rightarrow> Inl e
      | Inr True \<Rightarrow> Inr True
      | Inr False \<Rightarrow> scan_group lib rest non_similar_embeddings)"

text \<open>
  \<^verbatim>\<open>df_expanded.groupby("company_name")\<close> iterates over the distinct company names in
  sorted order; the group of a name is the rows that carry it, in table order.
\<close>

definition group_keys :: "('a sentence_row_scheme) list \<Rightarrow> string list" where
  "group_keys df = sort (remdups (map company_name df))"

definition group_of :: "('a sentence_row_scheme) list \<Rightarrow> string \<Rightarrow> ('a sentence_row_scheme) list" where
  "group_of df name = filter (\<lambda>r. company_name r = name) df"

text \<open>
  The outer loop, over the groups still to visit, with \<open>companies_to_exclude\<close> as
  accumulator.
\<close>

fun exclude_loop ::
  "library \<Rightarrow> ('a sentence_row_scheme) list \<Rightarrow> real list list \<Rightarrow> string list \<Rightarrow>
   string set \<Rightarrow> error + string set" where
  "exclude_loop lib df non_similar_embeddings [] companies_to_exclude =
     Inr companies_to_exclude"
| "exclude_loop lib df non_similar_embeddings (name # names) companies_to_exclude =
     (let embeddings = encode_sentences lib (map individual_sentences (group_of df name))
      in case scan_group lib embeddings non_similar_embeddings of
           Inl e \<Rightarrow> Inl e
         | Inr hit \<Rightarrow>
             exclude_loop lib df non_similar_embeddings names
               (if hit then insert name companies_to_exclude else companies_to_exclude))"

definition filter_non_similar ::
  "library \<Rightarrow> ('a sentence_row_scheme) list \<Rightarrow> string list \<Rightarrow>
   error + ('a sentence_row_scheme) list" where
  "filter_non_similar lib df_expanded non_similar_sentences =
     (let non_similar_embeddings = encode_sentences lib non_similar_sentences
      in case exclude_loop lib df_expanded non_similar_embeddings (group_keys df_expanded) {} of
           Inl e \<Rightarrow> Inl e
         | Inr companies_to_exclude \<Rightarrow>
             Inr (filter (\<lambda>r. company_name r \<notin> companies_to_exclude) df_expanded))"


text \<open>
  The property the specification gives the filter, read on the scores the code compares:
  a company is flagged at a threshold when the score \<^verbatim>\<open>util.cos_sim\<close> computes for one of
  its sentences and one of the excluded reference sentences is at least the threshold.
\<close>

definition company_flagged ::
  "library \<Rightarrow> string list \<Rightarrow> real \<Rightarrow> ('a sentence_row_scheme) list \<Rightarrow> string \<Rightarrow> bool" where
  "company_flagged lib excluded threshold table name =
     list_ex (\<lambda>r. company_name r = name \<and>
        list_ex (\<lambda>s. threshold \<le>
                   float_cosine lib (encode lib (individual_sentences r)) (encode lib s))
          excluded) table"

section \<open>The similarity ranker\<close>

text \<open>
  \<^verbatim>\<open>torch.topk(input, k)\<close> as its documentation gives it: the \<open>k\<close> largest entries with
  their indices, largest first; \<^verbatim>\<open>RuntimeError\<close> when \<open>k\<close> is not within \<open>0 .. len(input)\<close>.
  Entries are put in order by insertion; among equal entries the order is the library's
  (\<open>tie_first\<close>).
\<close>

definition precedes :: "library \<Rightarrow> real \<times> nat \<Rightarrow> real \<times> nat \<Rightarrow> bool" where
  "precedes lib p q = (fst q < fst p \<or> (fst p = fst q \<and> tie_first lib (snd p) (snd q)))"

fun insert_desc :: "library \<Rightarrow> real \<times> nat \<Rightarrow> (real \<times> nat) list \<Rightarrow> (real \<times> nat) list" where
  "insert_desc lib p [] = [p]"
| "insert_desc lib p (q # qs) =
     (if precedes lib p q then p # q # qs else q # insert_desc lib p qs)"

definition sort_desc :: "library \<Rightarrow> (real \<times> nat) list \<Rightarrow> (real \<times> nat) list" where
  "sort_desc lib ps = foldr (insert_desc lib) ps []"

definition topk :: "library \<Rightarrow> real list \<Rightarrow> int \<Rightarrow> error + (real \<times> nat) list" where
  "topk lib input k =
     (if k < 0 \<or> int (length input) < k then Inl RuntimeError
      else Inr (take (nat k) (sort_desc lib (zip input [0..<length input]))))"

text \<open>
  Python's \<^verbatim>\<open>round(x, 4)\<close>: to the nearest multiple of \<open>1/10000\<close>, a tie going to the
  even one.
\<close>

definition round_half_even :: "real \<Rightarrow> int" where
  "round_half_even x =
     (let f = \<lfloor>x\<rfloor>; r = x - of_int f
      in if r < 1 / 2 then f else if 1 / 2 < r then f + 1 else if even f then f else f + 1)"

definition round4 :: "real \<Rightarrow> real" where
  "round4 x = of_int (round_half_even (x * 10000)) / 10000"

text \<open>
  A row of the table \<^verbatim>\<open>find_top_similar\<close> returns. Its first two columns are called
  \<^verbatim>\<open>company_name\<close> and \<^verbatim>\<open>business_description\<close> in the source; the field names here
  differ from those of \<open>sentence_row\<close> only to keep the two records apart.
\<close>

record result_row =
  result_company_name :: string
  result_business_description :: string
  similar_sentence :: string
  similarity_score :: real

text \<open>\<^verbatim>\<open>data.iloc[idx]\<close>: the row at a position, \<^verbatim>\<open>IndexError\<close> past the end.\<close>

definition iloc :: "'a list \<Rightarrow> nat \<Rightarrow> error + 'a" where
  "iloc data idx = (if idx < length data then Inr (data ! idx) else Inl IndexError)"

text \<open>
  Lines 9 to 12 of \<^verbatim>\<open>find_top_similar\<close>: the queries are lowercased and embedded, the
  first row of the similarity matrix is kept, and \<^verbatim>\<open>torch.topk\<close> selects from it.
\<close>

definition top_results ::
  "library \<Rightarrow> string list \<Rightarrow> real list list \<Rightarrow> int \<Rightarrow> error + (real \<times> nat) list" where
  "top_results lib input_texts bd_embeddings top_k =
     (let input_embeddings = encode_sentences lib (map (str_lower lib) input_texts)
      in case cos_sim input_embeddings bd_embeddings of
           Inl e \<Rightarrow> Inl e
         | Inr m \<Rightarrow>
             (case first_row m of
                Inl e \<Rightarrow> Inl e
              | Inr cosine_scores \<Rightarrow> topk lib cosine_scores top_k))"

text \<open>
  Lines 14 to 24: one result per selected (score, index) pair, in order; \<open>make_result\<close>
  is the dictionary appended for a pair.
\<close>

definition make_result :: "'a sentence_row_scheme \<Rightarrow> real \<Rightarrow> result_row" where
  "make_result row score =
     \<lparr>result_company_name = company_name row,
      result_business_description = business_description row,
      similar_sentence = individual_sentences row,
      similarity_score = round4 score\<rparr>"

fun build_results ::
  "('a sentence_row_scheme) list \<Rightarrow> (real \<times> nat) list \<Rightarrow> error + result_row list" where
  "build_results data [] = Inr []"
| "build_results data ((score, idx) # rest) =
     (case iloc data idx of
        Inl e \<Rightarrow> Inl e
      | Inr row \<Rightarrow>
          (case build_results data rest of
             Inl e \<Rightarrow> Inl e
           | Inr results \<Rightarrow> Inr (make_result row score # results)))"

definition find_top_similar ::
  "library \<Rightarrow> string list \<Rightarrow> real list list \<Rightarrow> ('a sentence_row_scheme) list \<Rightarrow> int \<Rightarrow>
   error + result_row list" where
  "find_top_similar lib input_texts bd_embeddings data top_k =
     (case top_results lib input_texts bd_embeddings top_k of
        Inl e \<Rightarrow> Inl e
      | Inr selected \<Rightarrow> build_results data selected)"

definition default_top_k :: int where
  "default_top_k = 25"

section \<open>The preprocessor\<close>

text \<open>
  \<^verbatim>\<open>load_data\<close> works on the table \<^verbatim>\<open>pd.read_csv\<close> returns, whose columns are whatever
  the file's header names, so the table is a list of column names and a list of rows
  of cells. A cell read from the file is a string or missing (\<open>NaN\<close>); the column
  \<^verbatim>\<open>sentences\<close> holds lists of strings until \<^verbatim>\<open>explode\<close> unpacks them.
  \<^verbatim>\<open>read_csv\<close> makes repeated header names distinct.
\<close>

datatype cell = Str string | Lst "string list" | NaN

record frame =
  columns :: "string list"
  rows :: "cell list list"

fun col_index :: "string \<Rightarrow> string list \<Rightarrow> nat option" where
  "col_index c [] = None"
| "col_index c (x # xs) = (if x = c then Some 0 else map_option Suc (col_index c xs))"

text \<open>\<^verbatim>\<open>df.rename(columns=m)\<close>: names that are keys of \<open>m\<close> are replaced, the others kept.\<close>

definition renamed :: "(string \<times> string) list \<Rightarrow> string \<Rightarrow> string" where
  "renamed m c = (case map_of m c of None \<Rightarrow> c | Some c' \<Rightarrow> c')"

definition rename_columns :: "(string \<times> string) list \<Rightarrow> frame \<Rightarrow> frame" where
  "rename_columns m df = df\<lparr>columns := map (renamed m) (columns df)\<rparr>"

text \<open>
  \<^verbatim>\<open>df[c].str\<close>: \<^verbatim>\<open>KeyError\<close> when no column has the name; when two have it, the
  selection is a table, which has no \<^verbatim>\<open>.str\<close> (\<^verbatim>\<open>AttributeError\<close>); a column with rows
  but no string in it is not of object type, and \<^verbatim>\<open>.str\<close> refuses it
  (\<^verbatim>\<open>AttributeError\<close>).
\<close>

definition str_column :: "string \<Rightarrow> frame \<Rightarrow> error + cell list" where
  "str_column c df =
     (case col_index c (columns df) of
        None \<Rightarrow> Inl KeyError
      | Some i \<Rightarrow>
          if 1 < count_list (columns df) c then Inl AttributeError
          else (let col = map (\<lambda>r. r ! i) (rows df)
                in if col \<noteq> [] \<and> list_all (\<lambda>x. x = NaN) col then Inl AttributeError
                   else Inr col))"

text \<open>\<^verbatim>\<open>.str.lower()\<close>: a string is lowercased, anything else becomes \<open>NaN\<close>.\<close>

definition lower_cell :: "library \<Rightarrow> cell \<Rightarrow> cell" where
  "lower_cell lib x = (case x of Str s \<Rightarrow> Str (str_lower lib s) | _ \<Rightarrow> NaN)"

text \<open>
  \<^verbatim>\<open>.apply(sent_tokenize)\<close>: the tokenizer raises \<^verbatim>\<open>TypeError\<close> on the first cell that is
  not a string.
\<close>

fun apply_sent_tokenize :: "library \<Rightarrow> cell list \<Rightarrow> error + cell list" where
  "apply_sent_tokenize lib [] = Inr []"
| "apply_sent_tokenize lib (x # xs) =
     (case x of
        Str s \<Rightarrow>
          (case apply_sent_tokenize lib xs of
             Inl e \<Rightarrow> Inl e
           | Inr ys \<Rightarrow> Inr (Lst (sent_tokenize lib s) # ys))
      | _ \<Rightarrow> Inl TypeError)"

text \<open>
  \<^verbatim>\<open>df[c] = values\<close>: an existing column is overwritten in place, a new one is appended.
\<close>

definition set_column :: "string \<Rightarrow> cell list \<Rightarrow> frame \<Rightarrow> frame" where
  "set_column c vals df =
     (case col_index c (columns df) of
        Some i \<Rightarrow> df\<lparr>rows := map (\<lambda>(r, v). r[i := v]) (zip (rows df) vals)\<rparr>
      | None \<Rightarrow>
          \<lparr>columns = columns df @ [c],
           rows = map (\<lambda>(r, v). r @ [v]) (zip (rows df) vals)\<rparr>)"

text \<open>
  \<^verbatim>\<open>df.explode(c)\<close>: a row whose cell is a list becomes one row per element; an empty
  list gives one row with \<open>NaN\<close> in that cell; any other cell leaves the row as it is.
  pandas raises \<^verbatim>\<open>ValueError\<close> when column names repeat, \<^verbatim>\<open>KeyError\<close> when the column
  is absent.
\<close>

definition explode_row :: "nat \<Rightarrow> cell list \<Rightarrow> cell list list" where
  "explode_row i r =
     (case r ! i of
        Lst [] \<Rightarrow> [r[i := NaN]]
      | Lst ss \<Rightarrow> map (\<lambda>s. r[i := Str s]) ss
      | _ \<Rightarrow> [r])"

definition explode :: "string \<Rightarrow> frame \<Rightarrow> error + frame" where
  "explode c df =
     (if \<not> distinct (columns df) then Inl ValueError
      else case col_index c (columns df) of
             None \<Rightarrow> Inl KeyError
           | Some i \<Rightarrow> Inr (df\<lparr>rows := concat (map (explode_row i) (rows df))\<rparr>))"

definition load_renames :: "(string \<times> string) list" where
  "load_renames =
     [(''Company Name'', ''company_name''), (''Business Description'', ''business_description'')]"

text \<open>
  \<^verbatim>\<open>load_data\<close>, from the table read from the file on. The column \<^verbatim>\<open>sentences\<close> is
  computed from the values just stored as \<^verbatim>\<open>cleaned_description\<close>.
\<close>

definition load_data :: "library \<Rightarrow> frame \<Rightarrow> error + frame" where
  "load_data lib csv =
     (let df = rename_columns load_renames csv
      in case str_column ''business_description'' df of
           Inl e \<Rightarrow> Inl e
         | Inr description \<Rightarrow>
             (let cleaned = map (lower_cell lib) description;
                  df1 = set_column ''cleaned_description'' cleaned df
              in case apply_sent_tokenize lib cleaned of
                   Inl e \<Rightarrow> Inl e
                 | Inr sentences \<Rightarrow>
                     (case explode ''sentences'' (set_column ''sentences'' sentences df1) of
                        Inl e \<Rightarrow> Inl e
                      | Inr exploded \<Rightarrow>
                          Inr (rename_columns [(''sentences'', ''individual_sentences'')]
                                 exploded))))"

text \<open>Every row has one cell per column.\<close>

definition rectangular :: "frame \<Rightarrow> bool" where
  "rectangular df = list_all (\<lambda>r. length r = length (columns df)) (rows df)"

text \<open>
  An input table as \<^verbatim>\<open>read_csv\<close> gives it for a file whose description column is at
  position \<open>i\<close> and holds a string in every row: distinct column names, one cell per
  column in every row, and no column that already has one of the names \<^verbatim>\<open>load_data\<close>
  introduces. The column \<^verbatim>\<open>Company Name\<close> is not asked for.
\<close>

definition plain_input :: "frame \<Rightarrow> nat \<Rightarrow> bool" where
  "plain_input csv i =
     (distinct (columns csv) \<and> rectangular csv \<and>
      col_index ''Business Description'' (columns csv) = Some i \<and>
      list_all (\<lambda>c. c \<notin> set (columns csv))
        [''business_description'', ''company_name'', ''cleaned_description'', ''sentences''] \<and>
      list_all (\<lambda>r. case r ! i of Str _ \<Rightarrow> True | _ \<Rightarrow> False) (rows csv))"

text \<open>
  The rows a record of such a table turns into: the record with its lowercased
  description and one sentence appended, once per sentence; with \<open>NaN\<close> for the sentence,
  once, when the tokenizer finds none.
\<close>

definition cell_text :: "cell \<Rightarrow> string" where
  "cell_text x = (case x of Str s \<Rightarrow> s | _ \<Rightarrow> [])"

definition record_rows :: "library \<Rightarrow> nat \<Rightarrow> cell list \<Rightarrow> cell list list" where
  "record_rows lib i r =
     (case r ! i of
        Str s \<Rightarrow>
          (case sent_tokenize lib (str_lower lib s) of
             [] \<Rightarrow> [r @ [Str (str_lower lib s), NaN]]
           | ss \<Rightarrow> map (\<lambda>t. r @ [Str (str_lower lib s), Str t]) ss)
      | _ \<Rightarrow> [])"

section \<open>Tables as objects\<close>

text \<open>
  Python passes a DataFrame by reference, so what a call leaves of its argument depends on
  what each pandas operation it uses does to the objects it is given. The tables live in a
  store, a list indexed by address. An operation is a function from the store to its
  outcome (an error or a value) and the store it leaves; \<open>then_do\<close> runs one operation
  after another, an exception ending the run with the store as it then is.
\<close>

datatype table = Sentences "sentence_row list" | Results "result_row list"

definition then_do ::
  "(table list \<Rightarrow> (error + 'a) \<times> table list) \<Rightarrow>
   ('a \<Rightarrow> table list \<Rightarrow> (error + 'b) \<times> table list) \<Rightarrow>
   table list \<Rightarrow> (error + 'b) \<times> table list" where
  "then_do m f store =
     (case m store of (Inl e, store') \<Rightarrow> (Inl e, store') | (Inr x, store') \<Rightarrow> f x store')"

text \<open>A computation on values, which has its outcome and touches no table.\<close>

definition returning :: "error + 'a \<Rightarrow> table list \<Rightarrow> (error + 'a) \<times> table list" where
  "returning r store = (r, store)"

text \<open>A new table object: it gets the next free address.\<close>

definition new_table :: "table \<Rightarrow> table list \<Rightarrow> (error + nat) \<times> table list" where
  "new_table t store = (Inr (length store), store @ [t])"

text \<open>
  Reading the rows of the sentence table at an address, as column selection
  (\<^verbatim>\<open>df["company_name"]\<close>, \<^verbatim>\<open>group["individual_sentences"].tolist()\<close>) does. The
  operations below are those of sentence tables; an address that holds none is not what
  the pipeline passes, and is answered with the \<^verbatim>\<open>KeyError\<close> of a missing column.
\<close>

definition sentences_at :: "table list \<Rightarrow> nat \<Rightarrow> error + sentence_row list" where
  "sentences_at store a =
     (if a < length store
      then (case store ! a of Sentences df \<Rightarrow> Inr df | Results _ \<Rightarrow> Inl KeyError)
      else Inl KeyError)"

definition read_sentences :: "nat \<Rightarrow> table list \<Rightarrow> (error + sentence_row list) \<times> table list" where
  "read_sentences a store = (sentences_at store a, store)"

text \<open>
  \<^verbatim>\<open>df.groupby("company_name")\<close> keeps a reference to \<open>df\<close>; iterating over it gives the
  names, and for each name its group as a table of its own.
\<close>

definition groupby_names :: "nat \<Rightarrow> table list \<Rightarrow> (error + string list) \<times> table list" where
  "groupby_names a = then_do (read_sentences a) (\<lambda>df. returning (Inr (group_keys df)))"

definition groupby_group :: "nat \<Rightarrow> string \<Rightarrow> table list \<Rightarrow> (error + nat) \<times> table list" where
  "groupby_group a name =
     then_do (read_sentences a) (\<lambda>df. new_table (Sentences (group_of df name)))"

text \<open>\<^verbatim>\<open>df[mask]\<close> with a boolean mask: a new table with the rows the mask keeps.\<close>

definition select_rows ::
  "nat \<Rightarrow> (sentence_row \<Rightarrow> bool) \<Rightarrow> table list \<Rightarrow> (error + nat) \<times> table list" where
  "select_rows a keep = then_do (read_sentences a) (\<lambda>df. new_table (Sentences (filter keep df)))"

text \<open>
  \<^verbatim>\<open>df.reset_index(drop=True)\<close>: \<^verbatim>\<open>inplace\<close> is left at its default, so the result is a
  new table; the rows stay, and the index, which the model does not carry, is renumbered.
\<close>

definition reset_index :: "nat \<Rightarrow> table list \<Rightarrow> (error + nat) \<times> table list" where
  "reset_index a = then_do (read_sentences a) (\<lambda>df. new_table (Sentences df))"

text \<open>\<^verbatim>\<open>data.iloc[idx]\<close>: the row at a position, as a value of its own.\<close>

definition iloc_row :: "nat \<Rightarrow> nat \<Rightarrow> table list \<Rightarrow> (error + sentence_row) \<times> table list" where
  "iloc_row a idx = then_do (read_sentences a) (\<lambda>data. returning (iloc data idx))"

text \<open>
  \<^verbatim>\<open>filter_non_similar\<close> and \<^verbatim>\<open>find_top_similar\<close> once more, statement by statement, on
  the address of their argument.
\<close>

fun exclude_loop_on ::
  "library \<Rightarrow> nat \<Rightarrow> real list list \<Rightarrow> string list \<Rightarrow> string set \<Rightarrow>
   table list \<Rightarrow> (error + string set) \<times> table list" where
  "exclude_loop_on lib a non_similar_embeddings [] companies_to_exclude =
     returning (Inr companies_to_exclude)"
| "exclude_loop_on lib a non_similar_embeddings (name # names) companies_to_exclude =
     then_do (groupby_group a name) (\<lambda>g.
     then_do (read_sentences g) (\<lambda>group.
     then_do (returning (scan_group lib
                (encode_sentences lib (map individual_sentences group)) non_similar_embeddings))
       (\<lambda>hit.
     exclude_loop_on lib a non_similar_embeddings names
       (if hit then insert name companies_to_exclude else companies_to_exclude))))"

definition filter_non_similar_on ::
  "library \<Rightarrow> nat \<Rightarrow> string list \<Rightarrow> table list \<Rightarrow> (error + nat) \<times> table list" where
  "filter_non_similar_on lib a non_similar_sentences =
     then_do (groupby_names a) (\<lambda>names.
     then_do (exclude_loop_on lib a (encode_sentences lib non_similar_sentences) names {})
       (\<lambda>companies_to_exclude.
     then_do (select_rows a (\<lambda>r. company_name r \<notin> companies_to_exclude)) (\<lambda>selected.
     reset_index selected)))"

fun build_results_on ::
  "nat \<Rightarrow> (real \<times> nat) list \<Rightarrow> table list \<Rightarrow> (error + result_row list) \<times> table list" where
  "build_results_on a [] = returning (Inr [])"
| "build_results_on a ((score, idx) # rest) =
     then_do (iloc_row a idx) (\<lambda>row.
     then_do (build_results_on a rest) (\<lambda>results.
     returning (Inr (make_result row score # results))))"

definition find_top_similar_on ::
  "library \<Rightarrow> string list \<Rightarrow> real list list \<Rightarrow> nat \<Rightarrow> int \<Rightarrow>
   table list \<Rightarrow> (error + nat) \<times> table list" where
  "find_top_similar_on lib input_texts bd_embeddings a top_k =
     then_do (returning (top_results lib input_texts bd_embeddings top_k)) (\<lambda>selected.
     then_do (build_results_on a selected) (\<lambda>results.
     new_table (Results results)))"

text \<open>
  An operation keeps the tables when the store it leaves begins with the store it was
  given: every table that existed is where it was, with the rows it had.
\<close>

definition keeps_tables :: "(table list \<Rightarrow> (error + 'a) \<times> table list) \<Rightarrow> bool" where
  "keeps_tables m = (\<forall>store. take (length store) (snd (m store)) = store)"

section \<open>Sample inputs\<close>

text \<open>
  A small library and table on which the theorems below are run: two companies, one
  sentence each; the encoder has dimension 2, the tokenizer finds no sentence in a
  blank description, and the scores are computed without rounding error.
\<close>

definition sample_encoder :: "string \<Rightarrow> real list" where
  "sample_encoder s =
     (if s = ''consumer loans'' then [1, 0]
      else if s = ''credit and loans'' then [3, 4]
      else if s = ''retail lending'' then [12, 5]
      else [0, 1])"

definition sample_tokenizer :: "string \<Rightarrow> string list" where
  "sample_tokenizer s =
     (if s = '' '' then []
      else if s = ''we advise. we audit.'' then [''we advise.'', ''we audit.'']
      else [s])"

definition sample_lower :: "string \<Rightarrow> string" where
  "sample_lower s = (if s = ''We advise. We audit.'' then ''we advise. we audit.'' else s)"

definition sample_library :: library where
  "sample_library =
     \<lparr>str_lower = sample_lower, sent_tokenize = sample_tokenizer,
      encode = sample_encoder, tie_first = (\<lambda>i j. i < j), float_cosine = cosine\<rparr>"

definition beta_row :: sentence_row where
  "beta_row =
     \<lparr>company_name = ''Beta Loans'', business_description = ''Credit and loans'',
      individual_sentences = ''credit and loans''\<rparr>"

definition alpha_row :: sentence_row where
  "alpha_row =
     \<lparr>company_name = ''Alpha Consulting'', business_description = ''Consultancy'',
      individual_sentences = ''consultancy''\<rparr>"

definition sample_table :: "sentence_row list" where
  "sample_table = [beta_row, alpha_row]"

definition sample_csv :: frame where
  "sample_csv =
     \<lparr>columns = [''Company Name'', ''Business Description''],
      rows = [[Str ''Gamma Holding'', Str '' ''],
              [Str ''Delta Advisory'', Str ''We advise. We audit.'']]\<rparr>"

definition sample_csv_no_company :: frame where
  "sample_csv_no_company =
     \<lparr>columns = [''Business Description''], rows = [[Str ''We advise. We audit.'']]\<rparr>"

definition sample_csv_no_description :: frame where
  "sample_csv_no_description =
     \<lparr>columns = [''Company Name''], rows = [[Str ''Delta Advisory'']]\<rparr>"

definition sample_embeddings :: "real list list" where
  "sample_embeddings = encode_sentences sample_library (map individual_sentences sample_table)"

section \<open>Facts about the filter\<close>

lemmas sample_defs =
  sample_library_def sample_encoder_def sample_tokenizer_def sample_lower_def
  sample_table_def beta_row_def alpha_row_def

lemmas filter_defs =
  filter_non_similar_def group_keys_def group_of_def
  encode_sentences_def is_similar_to_non_similar_def cos_sim_float32_def cos_sim_def
  to_batch_def first_row_def tensor_max_def default_threshold_def cosine_def normalize_def
  norm2_def dot_def

lemma sqrt_25: "sqrt 25 = 5"
  using real_sqrt_abs[of 5] by simp

lemma sqrt_169: "sqrt 169 = 13"
  using real_sqrt_abs[of 13] by simp

lemma sample_embedding_dim: "embedding_dim sample_library 2"
  by (simp add: embedding_dim_def sample_defs)

lemma le_fold_max: "(t::real) \<le> fold max xs x \<longleftrightarrow> t \<le> x \<or> list_ex (\<lambda>y. t \<le> y) xs"
  by (induction xs arbitrary: x) (auto simp: le_max_iff_disj)

lemma cos_sim_float32_one:
  assumes "ns \<noteq> []" and "list_all (\<lambda>v. length v = length e) ns"
  shows "cos_sim_float32 lib [e] ns = Inr [map (float_cosine lib e) ns]"
proof -
  have "cos_sim [e] ns = Inr [map (cosine e) ns]"
    using assms by (simp add: cos_sim_def to_batch_def list_all_iff eq_commute)
  then show ?thesis
    using assms(1) by (simp add: cos_sim_float32_def to_batch_def)
qed

lemma is_similar_value:
  assumes "ns \<noteq> []" and "list_all (\<lambda>v. length v = length e) ns"
  shows "is_similar_to_non_similar lib e ns t = Inr (list_ex (\<lambda>v. t \<le> float_cosine lib e v) ns)"
proof -
  from assms(1) obtain v vs where ns: "ns = v # vs" by (cases ns) auto
  show ?thesis
    unfolding is_similar_to_non_similar_def cos_sim_float32_one[OF assms]
    by (simp add: first_row_def tensor_max_def ns le_fold_max list_ex_iff)
qed

lemma scan_group_value:
  assumes "ns \<noteq> []" and "list_all (\<lambda>v. length v = d) ns" and "list_all (\<lambda>e. length e = d) es"
  shows "scan_group lib es ns =
           Inr (list_ex (\<lambda>e. list_ex (\<lambda>v. default_threshold \<le> float_cosine lib e v) ns) es)"
  using assms(3)
proof (induction es)
  case Nil
  then show ?case by simp
next
  case (Cons e es)
  then have "list_all (\<lambda>v. length v = length e) ns"
    using assms(2) by (simp add: list_all_iff)
  then show ?case
    using Cons assms(1) by (simp add: is_similar_value split: bool.splits)
qed

lemma exclude_loop_value:
  assumes "ns \<noteq> []" and "embedding_dim lib d"
  shows "exclude_loop lib df (encode_sentences lib ns) names acc =
           Inr (acc \<union> {c \<in> set names. company_flagged lib ns default_threshold df c})"
proof (induction names arbitrary: acc)
  case Nil
  then show ?case by simp
next
  case (Cons c cs)
  have dims: "list_all (\<lambda>v. length v = d) (encode_sentences lib xs)" for xs
    using assms(2) by (simp add: embedding_dim_def encode_sentences_def list_all_iff)
  have ne: "encode_sentences lib ns \<noteq> []"
    using assms(1) by (simp add: encode_sentences_def)
  have hit: "scan_group lib (encode_sentences lib (map individual_sentences (group_of df c)))
               (encode_sentences lib ns) = Inr (company_flagged lib ns default_threshold df c)"
    by (subst scan_group_value[OF ne dims dims])
       (auto simp: company_flagged_def encode_sentences_def group_of_def list_ex_iff)
  show ?case
    by (auto simp: hit Cons.IH)
qed


lemma is_similar_no_reference:
  assumes "e \<noteq> []"
  shows "is_similar_to_non_similar lib e [] t = Inl RuntimeError"
  using assms
  by (simp add: is_similar_to_non_similar_def cos_sim_float32_def cos_sim_def to_batch_def)

lemma group_keys_nonempty:
  assumes "df \<noteq> []"
  shows "\<exists>c cs. group_keys df = c # cs \<and> c \<in> company_name ` set df"
proof -
  from assms have "set (group_keys df) \<noteq> {}" by (simp add: group_keys_def)
  then obtain c cs where k: "group_keys df = c # cs" by (cases "group_keys df") auto
  then have "c \<in> set (group_keys df)" by simp
  then have "c \<in> company_name ` set df" by (simp add: group_keys_def)
  with k show ?thesis by blast
qed

text \<open>
  C1. For a non-empty list of excluded reference sentences and an encoder of one
  dimension, the filter returns exactly the input rows whose company has no sentence for
  which the score computed by \<^verbatim>\<open>util.cos_sim\<close> against some reference sentence is at
  least the Python float 0.6 (the default threshold of \<^verbatim>\<open>is_similar_to_non_similar\<close>,
  the only one the filter uses), in their input order.
\<close>

theorem filter_non_similar_keeps_unflagged:
  assumes "ns \<noteq> []" and "embedding_dim lib d"
  shows "filter_non_similar lib df ns =
           Inr (filter (\<lambda>r. \<not> company_flagged lib ns default_threshold df (company_name r)) df)"
proof -
  have "company_name r \<in> set (group_keys df)" if "r \<in> set df" for r
    using that by (simp add: group_keys_def)
  then show ?thesis
    by (auto simp: filter_non_similar_def exclude_loop_value[OF assms] intro!: filter_cong)
qed

theorem filter_non_similar_keeps_unflagged_witness:
  "[''retail lending''] \<noteq> [] \<and> embedding_dim sample_library 2 \<and>
   filter_non_similar sample_library sample_table [''retail lending''] = Inr [alpha_row]"
  using filter_non_similar_keeps_unflagged
    [of "[''retail lending'']" sample_library 2 sample_table]
    sample_embedding_dim
  by (simp add: company_flagged_def default_threshold_def cosine_def normalize_def norm2_def
      dot_def sample_defs sqrt_25 sqrt_169)

text \<open>
  C1 as the specification states it, for every excluded-sentence list and every
  threshold, fails twice on the sample table: with no excluded sentence the filter raises,
  and at threshold 0.9 no company is flagged (Beta Loans scores 56/65, about 0.86, Alpha
  Consulting 5/13), yet the filter drops Beta Loans, since it compares against 0.6
  whatever threshold the caller has in mind.
\<close>

theorem filter_non_similar_counterexample:
  "filter_non_similar sample_library sample_table [] = Inl RuntimeError \<and>
   filter_non_similar sample_library sample_table [''retail lending''] = Inr [alpha_row] \<and>
   filter (\<lambda>r. \<not> company_flagged sample_library [''retail lending''] (9 / 10) sample_table
                    (company_name r)) sample_table = [beta_row, alpha_row]"
  by (simp add: filter_defs company_flagged_def sample_defs sqrt_25 sqrt_169)

text \<open>
  C3. With an empty excluded-sentence list the filter returns its input unchanged only
  when the input has no row; on any other table it raises \<^verbatim>\<open>RuntimeError\<close> at the first
  sentence it compares (the encoder's dimension being positive).
\<close>

theorem filter_non_similar_no_reference:
  assumes "embedding_dim lib d" and "0 < d"
  shows "filter_non_similar lib df [] = (if df = [] then Inr df else Inl RuntimeError)"
proof (cases "df = []")
  case True
  then show ?thesis
    by (simp add: filter_non_similar_def group_keys_def)
next
  case False
  from group_keys_nonempty[OF False] obtain c cs
    where k: "group_keys df = c # cs" and c: "c \<in> company_name ` set df" by blast
  from c obtain r rs where g: "group_of df c = r # rs"
    by (cases "group_of df c") (auto simp: group_of_def filter_empty_conv)
  have "encode lib (individual_sentences r) \<noteq> []"
    using assms by (auto simp: embedding_dim_def)
  then have "scan_group lib (encode_sentences lib (map individual_sentences (group_of df c))) []
      = Inl RuntimeError"
    by (simp add: g encode_sentences_def is_similar_no_reference)
  then show ?thesis
    using False by (simp add: filter_non_similar_def k encode_sentences_def)
qed

theorem filter_non_similar_no_reference_witness:
  "embedding_dim sample_library 2 \<and> (0::nat) < 2 \<and>
   filter_non_similar sample_library [alpha_row] [] = Inl RuntimeError \<and>
   filter_non_similar sample_library ([] :: sentence_row list) [] = Inr []"
  using filter_non_similar_no_reference [of sample_library 2 "[alpha_row]"]
    filter_non_similar_no_reference [of sample_library 2 "[] :: sentence_row list"]
    sample_embedding_dim
  by simp

text \<open>
  C3 as stated fails on a table of one row: the filter raises instead of returning the
  row.
\<close>

theorem filter_non_similar_no_reference_counterexample:
  "filter_non_similar sample_library [beta_row] [] \<noteq> Inr [beta_row]"
  by (simp add: filter_defs sample_defs)




section \<open>Facts about the ranker\<close>

lemmas ranker_defs =
  find_top_similar_def top_results_def encode_sentences_def cos_sim_def to_batch_def
  first_row_def topk_def sort_desc_def precedes_def iloc_def make_result_def round4_def
  round_half_even_def cosine_def normalize_def norm2_def dot_def default_top_k_def
  sample_embeddings_def

lemma length_insert_desc: "length (insert_desc lib p qs) = Suc (length qs)"
  by (induction qs) auto

lemma set_insert_desc: "set (insert_desc lib p qs) = insert p (set qs)"
  by (induction qs) auto

lemma distinct_insert_desc:
  "distinct (map snd (insert_desc lib p qs)) \<longleftrightarrow> snd p \<notin> snd ` set qs \<and> distinct (map snd qs)"
  by (induction qs) (auto simp: set_insert_desc)

lemma sorted_insert_desc:
  assumes "sorted_wrt (\<lambda>a b. fst b \<le> fst a) qs"
  shows "sorted_wrt (\<lambda>a b. fst b \<le> fst a) (insert_desc lib p qs)"
  using assms
proof (induction qs)
  case Nil
  then show ?case by simp
next
  case (Cons q qs)
  show ?case
  proof (cases "precedes lib p q")
    case True
    then have "fst q \<le> fst p" by (auto simp: precedes_def)
    with Cons.prems True show ?thesis by (auto intro: order_trans)
  next
    case False
    then have "fst p \<le> fst q" by (auto simp: precedes_def)
    with Cons False show ?thesis by (auto simp: set_insert_desc)
  qed
qed

lemma length_sort_desc: "length (sort_desc lib ps) = length ps"
  by (induction ps) (auto simp: sort_desc_def length_insert_desc)

lemma set_sort_desc: "set (sort_desc lib ps) = set ps"
  by (induction ps) (auto simp: sort_desc_def set_insert_desc)

lemma distinct_sort_desc:
  "distinct (map snd ps) \<Longrightarrow> distinct (map snd (sort_desc lib ps))"
proof (induction ps)
  case Nil
  then show ?case by (simp add: sort_desc_def)
next
  case (Cons p ps)
  have "sort_desc lib (p # ps) = insert_desc lib p (sort_desc lib ps)"
    by (simp add: sort_desc_def)
  with Cons show ?case
    by (auto simp: distinct_insert_desc set_sort_desc)
qed

lemma sorted_sort_desc: "sorted_wrt (\<lambda>a b. fst b \<le> fst a) (sort_desc lib ps)"
  by (induction ps) (auto simp: sort_desc_def sorted_insert_desc)

lemma sorted_wrt_take: "sorted_wrt P xs \<Longrightarrow> sorted_wrt P (take n xs)"
  by (metis append_take_drop_id sorted_wrt_append)

lemma topk_in_range:
  assumes "0 \<le> k" and "k \<le> int (length input)"
  shows "\<exists>sel. topk lib input k = Inr sel \<and> length sel = nat k \<and>
           sorted_wrt (\<lambda>a b. fst b \<le> fst a) sel \<and> distinct (map snd sel) \<and>
           set sel \<subseteq> set (zip input [0..<length input])"
proof -
  let ?all = "sort_desc lib (zip input [0..<length input])"
  have "distinct (map snd (zip input [0..<length input]))" by simp
  then have d: "distinct (map snd ?all)" by (rule distinct_sort_desc)
  have "distinct (map snd (take (nat k) ?all))"
    using d by (simp add: take_map[symmetric] del: take_map)
  moreover have "length (take (nat k) ?all) = nat k"
    using assms by (simp add: length_sort_desc)
  moreover have "set (take (nat k) ?all) \<subseteq> set (zip input [0..<length input])"
    using set_take_subset[of "nat k" ?all] by (simp add: set_sort_desc)
  ultimately show ?thesis
    using assms by (simp add: topk_def sorted_wrt_take sorted_sort_desc)
qed

lemma topk_distinct: "topk lib input k = Inr sel \<Longrightarrow> distinct (map snd sel)"
  using topk_in_range[of k input lib] by (auto simp: topk_def split: if_splits)

lemma topk_out_of_range:
  "k < 0 \<or> int (length input) < k \<Longrightarrow> topk lib input k = Inl RuntimeError"
  by (auto simp: topk_def)

lemma build_results_value:
  assumes "\<forall>p \<in> set sel. snd p < length data"
  shows "build_results data sel = Inr (map (\<lambda>(score, idx). make_result (data ! idx) score) sel)"
  using assms by (induction sel) (auto simp: iloc_def)

lemma build_results_Inr:
  assumes "build_results data sel = Inr res"
  shows "res = map (\<lambda>(score, idx). make_result (data ! idx) score) sel \<and>
         (\<forall>p \<in> set sel. snd p < length data)"
  using assms
  by (induction sel arbitrary: res) (fastforce simp: iloc_def split: sum.splits if_splits)+


lemma dot_bound: "2 * \<bar>dot u v\<bar> \<le> dot u u + dot v v"
proof (induction u arbitrary: v)
  case Nil
  have "0 \<le> sum_list (map (\<lambda>(x, y). x * y) (zip v v))"
    by (rule sum_list_nonneg) (auto simp: set_zip)
  then show ?case by (simp add: dot_def)
next
  case (Cons x u)
  show ?case
  proof (cases v)
    case Nil
    have "0 \<le> sum_list (map (\<lambda>(x, y). x * y) (zip (x # u) (x # u)))"
      by (rule sum_list_nonneg) (auto simp: set_zip)
    then show ?thesis using Nil by (simp add: dot_def)
  next
    case (Cons y w)
    have xy: "2 * \<bar>x * y\<bar> \<le> x * x + y * y"
      using sum_squares_bound[of x y] sum_squares_bound[of "-x" y]
      by (simp add: power2_eq_square abs_le_iff)
    have "dot (x # u) (y # w) = x * y + dot u w"
      by (simp add: dot_def)
    then have "2 * \<bar>dot (x # u) (y # w)\<bar> \<le> 2 * \<bar>x * y\<bar> + 2 * \<bar>dot u w\<bar>"
      by linarith
    also have "\<dots> \<le> (x * x + y * y) + (dot u u + dot w w)"
      using xy Cons.IH[of w] by linarith
    also have "\<dots> = dot (x # u) (x # u) + dot (y # w) (y # w)"
      by (simp add: dot_def)
    finally show ?thesis using Cons by simp
  qed
qed

lemma dot_self_nonneg: "0 \<le> dot v v"
  unfolding dot_def by (rule sum_list_nonneg) (auto simp: set_zip)

lemma dot_scale: "dot (map (\<lambda>x. x / c) v) (map (\<lambda>x. x / c) v) = dot v v / (c * c)"
  by (induction v) (auto simp: dot_def add_divide_distrib)

lemma dot_normalize_le_1: "dot (normalize v) (normalize v) \<le> 1"
proof -
  let ?c = "max (norm2 v) (1 / 10 ^ 12)"
  have pos: "0 < ?c" by (simp add: less_max_iff_disj)
  have "norm2 v \<le> ?c" by simp
  then have "norm2 v * norm2 v \<le> ?c * ?c"
    by (intro mult_mono) (auto simp: norm2_def dot_self_nonneg)
  moreover have "norm2 v * norm2 v = dot v v"
    by (simp add: norm2_def dot_self_nonneg)
  ultimately have "dot v v \<le> ?c * ?c" by simp
  then have "dot v v / (?c * ?c) \<le> 1"
    using pos by (simp add: divide_le_eq)
  then show ?thesis
    by (simp add: normalize_def dot_scale)
qed

lemma cosine_bound: "\<bar>cosine u v\<bar> \<le> 1"
  using dot_bound[of "normalize u" "normalize v"] dot_normalize_le_1[of u] dot_normalize_le_1[of v]
  by (simp add: cosine_def)

lemma round_half_even_mono:
  assumes "x \<le> y"
  shows "round_half_even x \<le> round_half_even y"
proof (cases "\<lfloor>x\<rfloor> = \<lfloor>y\<rfloor>")
  case True
  then have "x - of_int \<lfloor>x\<rfloor> \<le> y - of_int \<lfloor>y\<rfloor>" using assms by simp
  then show ?thesis
    using True by (auto simp: round_half_even_def Let_def)
next
  case False
  then have "\<lfloor>x\<rfloor> < \<lfloor>y\<rfloor>" using assms floor_mono[of x y] by linarith
  moreover have "round_half_even x \<le> \<lfloor>x\<rfloor> + 1"
    by (auto simp: round_half_even_def Let_def)
  moreover have "\<lfloor>y\<rfloor> \<le> round_half_even y"
    by (auto simp: round_half_even_def Let_def)
  ultimately show ?thesis by linarith
qed

lemma round_half_even_of_int: "round_half_even (of_int n) = n"
  by (simp add: round_half_even_def)

lemma round4_mono: "x \<le> y \<Longrightarrow> round4 x \<le> round4 y"
  using round_half_even_mono[of "x * 10000" "y * 10000"]
  by (simp add: round4_def divide_le_cancel)

lemma round4_bound:
  assumes "\<bar>x\<bar> \<le> 1"
  shows "- 1 \<le> round4 x \<and> round4 x \<le> 1"
proof -
  have a: "round4 1 = 1"
    using round_half_even_of_int[of 10000] by (simp add: round4_def)
  have b: "round4 (- 1) = - 1"
    using round_half_even_of_int[of "- 10000"] by (simp add: round4_def)
  from assms have "- 1 \<le> x" "x \<le> 1" by auto
  then show ?thesis
    using round4_mono[of "- 1" x] round4_mono[of x 1] a b by simp
qed

lemma cos_sim_queries:
  assumes "list_all (\<lambda>u. length u = d) (e # es)"
  shows "cos_sim (e # es) b =
           (if list_all (\<lambda>v. length v = d) (to_batch b)
            then Inr (map (\<lambda>u. map (cosine u) (to_batch b)) (e # es))
            else Inl RuntimeError)"
proof -
  let ?B = "to_batch b"
  have a: "to_batch (e # es) = e # es" by (simp add: to_batch_def)
  have d: "length u = d" if "u \<in> set (e # es)" for u
    using assms that unfolding list_all_iff by blast
  have "(\<forall>u\<in>set (e # es). \<forall>v\<in>set ?B. length u = length v) \<longleftrightarrow> (\<forall>v\<in>set ?B. length v = d)"
  proof
    assume L: "\<forall>u\<in>set (e # es). \<forall>v\<in>set ?B. length u = length v"
    show "\<forall>v\<in>set ?B. length v = d"
    proof
      fix v assume "v \<in> set ?B"
      with L have "length e = length v" by simp
      moreover have "length e = d" by (rule d) simp
      ultimately show "length v = d" by simp
    qed
  next
    assume R: "\<forall>v\<in>set ?B. length v = d"
    show "\<forall>u\<in>set (e # es). \<forall>v\<in>set ?B. length u = length v"
    proof (intro ballI)
      fix u v assume "u \<in> set (e # es)" and "v \<in> set ?B"
      with d[of u] R show "length u = length v" by simp
    qed
  qed
  then have "list_all (\<lambda>u. list_all (\<lambda>v. length u = length v) ?B) (e # es)
          \<longleftrightarrow> list_all (\<lambda>v. length v = d) ?B"
    unfolding list_all_iff .
  then show ?thesis
    unfolding cos_sim_def a Let_def by simp
qed

lemma top_results_first_query:
  assumes "embedding_dim lib d"
  shows "top_results lib (q # qs) bd k =
           (if list_all (\<lambda>v. length v = d) (to_batch bd)
            then topk lib (map (cosine (encode lib (str_lower lib q))) (to_batch bd)) k
            else Inl RuntimeError)"
proof -
  have e: "encode_sentences lib (map (str_lower lib) (q # qs)) =
             encode lib (str_lower lib q) # encode_sentences lib (map (str_lower lib) qs)"
    by (simp add: encode_sentences_def)
  have "list_all (\<lambda>u. length u = d)
          (encode lib (str_lower lib q) # encode_sentences lib (map (str_lower lib) qs))"
    using assms by (simp add: embedding_dim_def encode_sentences_def list_all_iff)
  from cos_sim_queries[OF this] show ?thesis
    unfolding top_results_def e Let_def by (simp add: first_row_def)
qed

lemma score_make_result: "similarity_score (make_result row score) = round4 score"
  by (simp add: make_result_def)

lemma sorted_results:
  assumes "sorted_wrt (\<lambda>a b. fst b \<le> fst a) sel"
  shows "sorted_wrt (\<lambda>r s. similarity_score s \<le> similarity_score r)
           (map (\<lambda>(score, idx). make_result (data ! idx) score) sel)"
  using assms
proof (induction sel)
  case Nil
  then show ?case by simp
next
  case (Cons p ps)
  have "round4 (fst q) \<le> round4 (fst p)" if "q \<in> set ps" for q
    using Cons.prems that by (auto intro: round4_mono)
  then show ?case
    using Cons by (auto simp: split_def score_make_result)
qed

lemma find_top_similar_in_range:
  assumes "embedding_dim lib d" and "bd \<noteq> []" and "list_all (\<lambda>v. length v = d) bd"
    and "length bd \<le> length data" and "0 \<le> k" and "k \<le> int (length bd)"
  shows "\<exists>results. find_top_similar lib (q # qs) bd data k = Inr results \<and>
           length results = nat k \<and>
           sorted_wrt (\<lambda>r s. similarity_score s \<le> similarity_score r) results \<and>
           (\<forall>r \<in> set results. - 1 \<le> similarity_score r \<and> similarity_score r \<le> 1)"
proof -
  let ?scores = "map (cosine (encode lib (str_lower lib q))) bd"
  have tb: "to_batch bd = bd" using assms(2) by (simp add: to_batch_def)
  have tr: "top_results lib (q # qs) bd k = topk lib ?scores k"
    using assms(3) by (simp add: top_results_first_query[OF assms(1)] tb)
  from topk_in_range[of k ?scores lib] assms(5,6) obtain sel
    where sel: "topk lib ?scores k = Inr sel" and len: "length sel = nat k"
      and srt: "sorted_wrt (\<lambda>a b. fst b \<le> fst a) sel"
      and sub: "set sel \<subseteq> set (zip ?scores [0..<length ?scores])" by auto
  have idx: "\<forall>p \<in> set sel. snd p < length data"
  proof
    fix p assume "p \<in> set sel"
    with sub have "p \<in> set (zip ?scores [0..<length ?scores])" by blast
    then have "snd p \<in> set [0..<length ?scores]"
      using set_zip_rightD[of "fst p" "snd p" ?scores "[0..<length ?scores]"] by simp
    with assms(4) show "snd p < length data" by simp
  qed
  have sc: "\<forall>p \<in> set sel. \<bar>fst p\<bar> \<le> 1"
  proof
    fix p assume "p \<in> set sel"
    with sub have "p \<in> set (zip ?scores [0..<length ?scores])" by blast
    then have "fst p \<in> set ?scores"
      using set_zip_leftD[of "fst p" "snd p" ?scores "[0..<length ?scores]"] by simp
    then show "\<bar>fst p\<bar> \<le> 1" by (auto simp: cosine_bound)
  qed
  let ?res = "map (\<lambda>(score, idx). make_result (data ! idx) score) sel"
  have r: "find_top_similar lib (q # qs) bd data k = Inr ?res"
    by (simp add: find_top_similar_def tr sel build_results_value[OF idx])
  have s: "sorted_wrt (\<lambda>r s. similarity_score s \<le> similarity_score r) ?res"
    using srt by (rule sorted_results)
  have b: "\<forall>r \<in> set ?res. - 1 \<le> similarity_score r \<and> similarity_score r \<le> 1"
  proof
    fix r assume "r \<in> set ?res"
    then obtain p where p: "p \<in> set sel" and r: "r = make_result (data ! snd p) (fst p)"
      by (auto simp: split_def)
    from sc p have "\<bar>fst p\<bar> \<le> 1" by blast
    from round4_bound[OF this] show "- 1 \<le> similarity_score r \<and> similarity_score r \<le> 1"
      by (simp add: r make_result_def)
  qed
  from r len s b show ?thesis by simp
qed

lemma find_top_similar_out_of_range:
  assumes "embedding_dim lib d" and "bd \<noteq> []" and "list_all (\<lambda>v. length v = d) bd"
    and "k < 0 \<or> int (length bd) < k"
  shows "find_top_similar lib (q # qs) bd data k = Inl RuntimeError"
proof -
  have tb: "to_batch bd = bd" using assms(2) by (simp add: to_batch_def)
  show ?thesis
    using assms(3,4)
    by (simp add: find_top_similar_def top_results_first_query[OF assms(1)] tb topk_out_of_range)
qed

text \<open>
  C2. For a non-empty query list and a non-empty candidate set of \<open>N\<close> embeddings of
  the encoder's dimension, with at least \<open>N\<close> metadata rows: when \<open>0 \<le> k \<le> N\<close> the
  ranker returns exactly \<open>k\<close> results, sorted by descending score, every score within
  \<open>[-1, 1]\<close>; when \<open>k\<close> is negative or exceeds \<open>N\<close> it raises \<^verbatim>\<open>RuntimeError\<close> (nothing
  is clamped).
\<close>

theorem find_top_similar_top_k:
  assumes "embedding_dim lib d" and "bd \<noteq> []" and "list_all (\<lambda>v. length v = d) bd"
    and "length bd \<le> length data"
  shows "(0 \<le> k \<and> k \<le> int (length bd) \<longrightarrow>
            (\<exists>results. find_top_similar lib (q # qs) bd data k = Inr results \<and>
               length results = nat k \<and>
               sorted_wrt (\<lambda>r s. similarity_score s \<le> similarity_score r) results \<and>
               (\<forall>r \<in> set results. - 1 \<le> similarity_score r \<and> similarity_score r \<le> 1))) \<and>
         (k < 0 \<or> int (length bd) < k \<longrightarrow>
            find_top_similar lib (q # qs) bd data k = Inl RuntimeError)"
  using find_top_similar_in_range[OF assms, of k q qs]
    find_top_similar_out_of_range[OF assms(1-3), of k q qs data]
  by blast

theorem find_top_similar_top_k_witness:
  "embedding_dim sample_library 2 \<and> sample_embeddings \<noteq> [] \<and>
   list_all (\<lambda>v. length v = 2) sample_embeddings \<and>
   length sample_embeddings \<le> length sample_table \<and>
   find_top_similar sample_library [''consultancy''] sample_embeddings sample_table 3 =
     Inl RuntimeError \<and>
   (\<exists>results. find_top_similar sample_library [''consultancy''] sample_embeddings sample_table 1 =
        Inr results \<and> length results = 1)"
proof -
  have a: "sample_embeddings \<noteq> []"
    by (simp add: sample_embeddings_def encode_sentences_def sample_defs)
  have b: "list_all (\<lambda>v. length v = 2) sample_embeddings"
    by (simp add: sample_embeddings_def encode_sentences_def sample_defs)
  have c: "length sample_embeddings \<le> length sample_table"
    by (simp add: sample_embeddings_def encode_sentences_def sample_defs)
  from find_top_similar_top_k[OF sample_embedding_dim a b c, of 3 "''consultancy''" "[]"]
    find_top_similar_top_k[OF sample_embedding_dim a b c, of 1 "''consultancy''" "[]"]
    sample_embedding_dim a b c
  show ?thesis
    by (auto simp: sample_embeddings_def encode_sentences_def sample_table_def)
qed

text \<open>
  C2 as stated, for every integer \<open>k\<close>, fails at the function's own default \<open>k = 25\<close> on
  the two candidates of the sample table: the claim promises \<open>min(25, 2) = 2\<close> results,
  the ranker raises.
\<close>

theorem find_top_similar_default_k_counterexample:
  "find_top_similar sample_library [''consultancy''] sample_embeddings sample_table
     default_top_k = Inl RuntimeError"
  by (simp add: ranker_defs sample_defs)

text \<open>
  C7. With an encoder of one dimension, the result of the ranker depends on the query
  list only through its first element: two query lists with the same first sentence give
  the same result, whatever follows.
\<close>

theorem find_top_similar_first_query_only:
  assumes "embedding_dim lib d"
  shows "find_top_similar lib (q # qs) bd data k = find_top_similar lib (q # qs') bd data k"
  by (simp add: find_top_similar_def top_results_first_query[OF assms])

theorem find_top_similar_first_query_only_witness:
  "embedding_dim sample_library 2 \<and>
   find_top_similar sample_library [''consultancy'', ''consumer loans''] sample_embeddings
     sample_table 1 =
   find_top_similar sample_library [''consultancy'', ''credit and loans'', ''audit'']
     sample_embeddings sample_table 1"
  using find_top_similar_first_query_only[OF sample_embedding_dim, of "''consultancy''"
      "[''consumer loans'']" sample_embeddings sample_table 1 "[''credit and loans'', ''audit'']"]
    sample_embedding_dim
  by simp

text \<open>
  C10. Whenever the ranker returns, its results are built, in order, from the pairs
  \<^verbatim>\<open>torch.topk\<close> selected, whose candidate indices are pairwise distinct and within the
  metadata table: no candidate row is reported twice.
\<close>

theorem find_top_similar_distinct_indices:
  assumes "find_top_similar lib input_texts bd data k = Inr results"
  shows "\<exists>sel. top_results lib input_texts bd k = Inr sel \<and> distinct (map snd sel) \<and>
           (\<forall>p \<in> set sel. snd p < length data) \<and>
           results = map (\<lambda>(score, idx). make_result (data ! idx) score) sel"
proof -
  from assms obtain sel where sel: "top_results lib input_texts bd k = Inr sel"
    and b: "build_results data sel = Inr results"
    by (auto simp: find_top_similar_def split: sum.splits)
  from sel have "\<exists>scores. topk lib scores k = Inr sel"
    by (auto simp: top_results_def Let_def split: sum.splits)
  then have "distinct (map snd sel)" using topk_distinct by blast
  with sel build_results_Inr[OF b] show ?thesis by blast
qed

theorem find_top_similar_distinct_indices_witness:
  "find_top_similar sample_library [''consultancy''] sample_embeddings sample_table 2 =
     Inr [make_result alpha_row 1, make_result beta_row (4 / 5)] \<and>
   top_results sample_library [''consultancy''] sample_embeddings 2 = Inr [(1, 1), (4 / 5, 0)] \<and>
   distinct (map snd [(1 :: real, 1 :: nat), (4 / 5, 0)])"
proof -
  have r: "find_top_similar sample_library [''consultancy''] sample_embeddings sample_table 2 =
     Inr [make_result alpha_row 1, make_result beta_row (4 / 5)]"
    by (simp add: ranker_defs sample_defs sqrt_25)
  have t: "top_results sample_library [''consultancy''] sample_embeddings 2 =
     Inr [(1, 1), (4 / 5, 0)]"
    by (simp add: ranker_defs sample_defs sqrt_25)
  from find_top_similar_distinct_indices[OF r] r t show ?thesis by simp
qed

section \<open>Facts about the preprocessor\<close>

lemmas load_defs =
  load_data_def load_renames_def rename_columns_def renamed_def str_column_def lower_cell_def
  set_column_def explode_def explode_row_def

lemma col_index_None: "col_index c xs = None \<longleftrightarrow> c \<notin> set xs"
  by (induction xs) auto

lemma col_index_new: "c \<notin> set xs \<Longrightarrow> col_index c (xs @ c # ys) = Some (length xs)"
  by (induction xs) auto

lemma col_index_map:
  assumes "col_index c xs = Some i" and "\<And>x. x \<in> set xs \<Longrightarrow> f x = f c \<Longrightarrow> x = c"
  shows "col_index (f c) (map f xs) = Some i"
  using assms
proof (induction xs arbitrary: i)
  case Nil
  then show ?case by simp
next
  case (Cons x xs)
  show ?case
  proof (cases "x = c")
    case True
    with Cons.prems(1) show ?thesis by simp
  next
    case False
    with Cons.prems(2)[of x] have ne: "f x \<noteq> f c" by auto
    from False Cons.prems(1) obtain j where j: "col_index c xs = Some j" and i: "i = Suc j"
      by (auto split: if_splits)
    from Cons.IH[OF j] Cons.prems(2) have "col_index (f c) (map f xs) = Some j" by simp
    with ne i show ?thesis by simp
  qed
qed

lemma zip_map_self: "map (\<lambda>(r, v). g r v) (zip xs (map f xs)) = map (\<lambda>r. g r (f r)) xs"
  by (induction xs) auto

lemma apply_sent_tokenize_Str:
  "apply_sent_tokenize lib (map (\<lambda>r. Str (f r)) xs) =
     Inr (map (\<lambda>r. Lst (sent_tokenize lib (f r))) xs)"
  by (induction xs) auto

lemma col_index_less: "col_index c xs = Some i \<Longrightarrow> i < length xs"
  by (induction xs arbitrary: i) (auto split: if_splits)

lemma count_list_distinct: "distinct xs \<Longrightarrow> count_list xs x \<le> 1"
  by (induction xs) (auto simp: count_list_0_iff)

lemma zip_map_map:
  "map (\<lambda>(r, v). g r v) (zip (map a xs) (map f xs)) = map (\<lambda>r. g (a r) (f r)) xs"
  by (induction xs) auto

lemma renamed_load:
  "renamed load_renames ''Business Description'' = ''business_description''"
  "renamed load_renames c = ''business_description'' \<Longrightarrow>
     c = ''Business Description'' \<or> c = ''business_description''"
  "renamed load_renames c = ''company_name'' \<Longrightarrow> c = ''Company Name'' \<or> c = ''company_name''"
  "renamed load_renames c \<noteq> ''business_description'' \<Longrightarrow>
     renamed load_renames c \<noteq> ''company_name'' \<Longrightarrow> renamed load_renames c = c"
  by (auto simp: renamed_def load_renames_def split: if_splits)

lemma renamed_load_inj:
  assumes "''business_description'' \<notin> S" and "''company_name'' \<notin> S"
  shows "inj_on (renamed load_renames) S"
proof (rule inj_onI)
  fix x y assume x: "x \<in> S" and y: "y \<in> S" and e: "renamed load_renames x = renamed load_renames y"
  from x y assms have "x \<noteq> ''business_description''" "x \<noteq> ''company_name''"
    "y \<noteq> ''business_description''" "y \<noteq> ''company_name''" by auto
  with e show "x = y"
    by (auto simp: renamed_def load_renames_def split: if_splits)
qed

lemma renamed_load_fresh:
  assumes "c \<notin> S" and "c \<noteq> ''business_description''" and "c \<noteq> ''company_name''"
  shows "c \<notin> renamed load_renames ` S"
proof
  assume "c \<in> renamed load_renames ` S"
  then obtain x where x: "x \<in> S" and c: "c = renamed load_renames x" by blast
  from renamed_load(4)[of x] assms(2,3) c have "renamed load_renames x = x" by simp
  with c x assms(1) show False by simp
qed

lemma explode_row_record:
  assumes "r ! i = Str s" and "i < length r"
  shows "explode_row (Suc (length r))
           (r @ [Str (str_lower lib s), Lst (sent_tokenize lib (str_lower lib s))]) =
         record_rows lib i r"
proof -
  let ?x = "r @ [Str (str_lower lib s), Lst (sent_tokenize lib (str_lower lib s))]"
  have nth: "?x ! Suc (length r) = Lst (sent_tokenize lib (str_lower lib s))"
    by (simp add: nth_append)
  have upd: "(r @ [a, b])[Suc (length r) := v] = r @ [a, v]" for a b v :: cell
    by (simp add: list_update_append)
  show ?thesis
    unfolding explode_row_def nth record_rows_def assms(1)
    by (simp add: upd split: list.splits)
qed

lemma load_data_plain:
  assumes "plain_input csv i"
  shows "load_data lib csv =
           Inr \<lparr>columns = map (renamed load_renames) (columns csv) @
                           [''cleaned_description'', ''individual_sentences''],
                rows = concat (map (record_rows lib i) (rows csv))\<rparr>"
proof -
  let ?cols = "columns csv" and ?R = "rows csv"
  let ?cols1 = "map (renamed load_renames) ?cols"
  let ?df = "rename_columns load_renames csv"
  let ?clean = "\<lambda>r. Str (str_lower lib (cell_text (r ! i)))"
  let ?sents = "\<lambda>r. Lst (sent_tokenize lib (str_lower lib (cell_text (r ! i))))"
  from assms have dist: "distinct ?cols" and rect: "rectangular csv"
    and idx: "col_index ''Business Description'' ?cols = Some i"
    and f1: "''business_description'' \<notin> set ?cols" and f2: "''company_name'' \<notin> set ?cols"
    and f3: "''cleaned_description'' \<notin> set ?cols" and f4: "''sentences'' \<notin> set ?cols"
    and strs: "list_all (\<lambda>r. case r ! i of Str _ \<Rightarrow> True | _ \<Rightarrow> False) ?R"
    by (simp_all add: plain_input_def)
  have str: "r ! i = Str (cell_text (r ! i))" if "r \<in> set ?R" for r
    using strs that by (auto simp: list_all_iff cell_text_def split: cell.splits)
  have len: "length r = length ?cols" if "r \<in> set ?R" for r
    using rect that by (simp add: rectangular_def list_all_iff)
  have i_less: "i < length ?cols" using idx by (rule col_index_less)
  have dist1: "distinct ?cols1"
    using dist renamed_load_inj[OF f1 f2] by (simp add: distinct_map)
  have n3: "''cleaned_description'' \<notin> set ?cols1"
    using renamed_load_fresh[OF f3] by simp
  have n4: "''sentences'' \<notin> set ?cols1"
    using renamed_load_fresh[OF f4] by simp
  have df: "columns ?df = ?cols1" "rows ?df = ?R"
    by (simp_all add: rename_columns_def)
  have "col_index (renamed load_renames ''Business Description'') ?cols1 = Some i"
  proof (rule col_index_map[OF idx])
    fix x assume "x \<in> set ?cols"
      and "renamed load_renames x = renamed load_renames ''Business Description''"
    with renamed_load(2)[of x] f1 show "x = ''Business Description''"
      by (auto simp: renamed_load(1))
  qed
  then have idx1: "col_index ''business_description'' ?cols1 = Some i"
    by (simp add: renamed_load(1))
  have notnan: "\<not> (map (\<lambda>r. r ! i) ?R \<noteq> [] \<and> list_all (\<lambda>x. x = NaN) (map (\<lambda>r. r ! i) ?R))"
  proof (cases ?R)
    case Nil
    then show ?thesis by simp
  next
    case (Cons r rs)
    have "r ! i \<noteq> NaN" using str[of r] Cons by (metis cell.distinct(3) list.set_intros(1))
    with Cons show ?thesis by simp
  qed
  have c1: "str_column ''business_description'' ?df = Inr (map (\<lambda>r. r ! i) ?R)"
    unfolding str_column_def df idx1 Let_def
    using count_list_distinct[OF dist1, of "''business_description''"] notnan by simp
  have c2: "map (lower_cell lib) (map (\<lambda>r. r ! i) ?R) = map ?clean ?R"
  proof -
    have "lower_cell lib (r ! i) = ?clean r" if "r \<in> set ?R" for r
      using str[OF that] by (simp add: lower_cell_def cell_text_def split: cell.splits)
    then show ?thesis by simp
  qed
  have c3: "set_column ''cleaned_description'' (map ?clean ?R) ?df =
              \<lparr>columns = ?cols1 @ [''cleaned_description''], rows = map (\<lambda>r. r @ [?clean r]) ?R\<rparr>"
    using n3 zip_map_self[of "\<lambda>r v. r @ [v]" ?R ?clean]
    by (simp add: set_column_def df col_index_None[THEN iffD2])
  have c4: "apply_sent_tokenize lib (map ?clean ?R) = Inr (map ?sents ?R)"
    by (rule apply_sent_tokenize_Str)
  have n4': "col_index ''sentences'' (?cols1 @ [''cleaned_description'']) = None"
    using n4 by (simp add: col_index_None)
  have c5: "set_column ''sentences'' (map ?sents ?R)
              \<lparr>columns = ?cols1 @ [''cleaned_description''], rows = map (\<lambda>r. r @ [?clean r]) ?R\<rparr> =
            \<lparr>columns = ?cols1 @ [''cleaned_description'', ''sentences''],
             rows = map (\<lambda>r. r @ [?clean r, ?sents r]) ?R\<rparr>"
    using zip_map_map[of "\<lambda>r v. r @ [v]" "\<lambda>r. r @ [?clean r]" ?R ?sents]
    by (simp add: set_column_def n4')
  have n5: "col_index ''sentences'' (?cols1 @ [''cleaned_description'', ''sentences'']) =
              Some (Suc (length ?cols))"
    using col_index_new[of "''sentences''" "?cols1 @ [''cleaned_description'']" "[]"] n4 by simp
  have step6: "explode_row (Suc (length ?cols)) (r @ [?clean r, ?sents r]) = record_rows lib i r"
    if "r \<in> set ?R" for r
    using explode_row_record[OF str[OF that], of lib] len[OF that] i_less by simp
  have "map (explode_row (Suc (length ?cols))) (map (\<lambda>r. r @ [?clean r, ?sents r]) ?R) =
        map (record_rows lib i) ?R"
    unfolding map_map comp_def by (rule map_cong[OF refl]) (rule step6)
  then have rows6: "concat (map (explode_row (Suc (length ?cols)))
                      (map (\<lambda>r. r @ [?clean r, ?sents r]) ?R)) =
               concat (map (record_rows lib i) ?R)"
    by (rule arg_cong)
  have c6: "explode ''sentences''
              \<lparr>columns = ?cols1 @ [''cleaned_description'', ''sentences''],
               rows = map (\<lambda>r. r @ [?clean r, ?sents r]) ?R\<rparr> =
            Inr \<lparr>columns = ?cols1 @ [''cleaned_description'', ''sentences''],
                 rows = concat (map (record_rows lib i) ?R)\<rparr>"
    using dist1 n3 n4 rows6 by (simp add: explode_def n5)
  have single: "renamed [(''sentences'', ''individual_sentences'')] c =
                  (if c = ''sentences'' then ''individual_sentences'' else c)" for c
    by (simp add: renamed_def)
  have keep: "map (renamed [(''sentences'', ''individual_sentences'')]) ?cols1 = ?cols1"
  proof (rule map_idI)
    fix c assume "c \<in> set ?cols1"
    with n4 have "c \<noteq> ''sentences''" by blast
    then show "renamed [(''sentences'', ''individual_sentences'')] c = c"
      by (simp only: single if_False)
  qed
  have c7: "rename_columns [(''sentences'', ''individual_sentences'')]
              \<lparr>columns = ?cols1 @ [''cleaned_description'', ''sentences''],
               rows = concat (map (record_rows lib i) ?R)\<rparr> =
            \<lparr>columns = ?cols1 @ [''cleaned_description'', ''individual_sentences''],
             rows = concat (map (record_rows lib i) ?R)\<rparr>"
    unfolding rename_columns_def using keep by (simp add: single)
  show ?thesis
    unfolding load_data_def Let_def c1 c2 c3 c4 sum.case c5 c6 c7 ..
qed

lemma load_data_no_description:
  assumes "''Business Description'' \<notin> set (columns csv)"
    and "''business_description'' \<notin> set (columns csv)"
  shows "load_data lib csv = Inl KeyError"
proof -
  have "''business_description'' \<notin> set (map (renamed load_renames) (columns csv))"
  proof
    assume "''business_description'' \<in> set (map (renamed load_renames) (columns csv))"
    then obtain c where "c \<in> set (columns csv)" and "renamed load_renames c = ''business_description''"
      by auto
    with renamed_load(2)[of c] assms show False by auto
  qed
  then have "col_index ''business_description'' (columns (rename_columns load_renames csv)) = None"
    by (simp add: col_index_None rename_columns_def)
  then show ?thesis
    by (simp add: load_data_def str_column_def)
qed

text \<open>
  C4. In a plain input, a record whose description yields no sentence is not dropped:
  \<^verbatim>\<open>explode\<close> turns its empty sentence list into one row, which carries the record's
  cells (its company name among them), the lowercased description, and \<open>NaN\<close> in place of
  the sentence; the row stands between the rows of the records before and after it.
\<close>

theorem load_data_record_without_sentences:
  assumes "plain_input csv i" and "rows csv = earlier @ r # later"
    and "sent_tokenize lib (str_lower lib (cell_text (r ! i))) = []"
  shows "\<exists>out. load_data lib csv = Inr out \<and>
           rows out = concat (map (record_rows lib i) earlier) @
                      [r @ [Str (str_lower lib (cell_text (r ! i))), NaN]] @
                      concat (map (record_rows lib i) later)"
proof -
  from assms(1,2) have "case r ! i of Str _ \<Rightarrow> True | _ \<Rightarrow> False"
    by (simp add: plain_input_def)
  then obtain s where s: "r ! i = Str s"
    by (cases "r ! i") auto
  have "record_rows lib i r = [r @ [Str (str_lower lib (cell_text (r ! i))), NaN]]"
    using assms(3) unfolding record_rows_def s by (simp add: cell_text_def)
  then show ?thesis
    by (simp add: load_data_plain[OF assms(1)] assms(2))
qed

theorem load_data_record_without_sentences_witness:
  "plain_input sample_csv 1 \<and>
   rows sample_csv = [] @ [Str ''Gamma Holding'', Str '' ''] # [[Str ''Delta Advisory'', Str ''We advise. We audit.'']] \<and>
   sent_tokenize sample_library (str_lower sample_library '' '') = [] \<and>
   (\<exists>out. load_data sample_library sample_csv = Inr out \<and>
      rows out = [[Str ''Gamma Holding'', Str '' '', Str '' '', NaN],
                  [Str ''Delta Advisory'', Str ''We advise. We audit.'',
                   Str ''we advise. we audit.'', Str ''we advise.''],
                  [Str ''Delta Advisory'', Str ''We advise. We audit.'',
                   Str ''we advise. we audit.'', Str ''we audit.'']])"
proof -
  have a: "plain_input sample_csv 1"
    by (simp add: plain_input_def rectangular_def sample_csv_def)
  have b: "rows sample_csv = [] @ [Str ''Gamma Holding'', Str '' ''] #
             [[Str ''Delta Advisory'', Str ''We advise. We audit.'']]"
    by (simp add: sample_csv_def)
  have c: "sent_tokenize sample_library
             (str_lower sample_library (cell_text ([Str ''Gamma Holding'', Str '' ''] ! 1))) = []"
    by (simp add: sample_defs cell_text_def)
  from load_data_record_without_sentences[OF a b c] a b c show ?thesis
    by (simp add: record_rows_def cell_text_def sample_defs)
qed

text \<open>
  C4 as stated fails on the sample file: the blank description of Gamma Holding yields
  no sentence, and the table \<^verbatim>\<open>load_data\<close> returns has a row for Gamma Holding.
\<close>

theorem load_data_blank_description_counterexample:
  "load_data sample_library sample_csv =
     Inr \<lparr>columns = [''company_name'', ''business_description'', ''cleaned_description'',
                     ''individual_sentences''],
          rows = [[Str ''Gamma Holding'', Str '' '', Str '' '', NaN],
                  [Str ''Delta Advisory'', Str ''We advise. We audit.'',
                   Str ''we advise. we audit.'', Str ''we advise.''],
                  [Str ''Delta Advisory'', Str ''We advise. We audit.'',
                   Str ''we advise. we audit.'', Str ''we audit.'']]\<rparr>"
  by (simp add: load_defs sample_csv_def sample_library_def sample_lower_def
      sample_tokenizer_def)

text \<open>
  C8. A table with no column \<^verbatim>\<open>Business Description\<close> (and none already called
  \<^verbatim>\<open>business_description\<close>) makes \<^verbatim>\<open>load_data\<close> raise \<^verbatim>\<open>KeyError\<close>. The column
  \<^verbatim>\<open>Company Name\<close> is not required: every plain input, with or without it, is loaded.
\<close>

theorem load_data_missing_description:
  "(''Business Description'' \<notin> set (columns csv) \<and>
    ''business_description'' \<notin> set (columns csv) \<longrightarrow> load_data lib csv = Inl KeyError) \<and>
   (plain_input csv i \<longrightarrow> (\<exists>out. load_data lib csv = Inr out))"
  using load_data_no_description[of csv lib] load_data_plain[of csv i lib]
  by blast

theorem load_data_missing_description_witness:
  "''Business Description'' \<notin> set (columns sample_csv_no_description) \<and>
   ''business_description'' \<notin> set (columns sample_csv_no_description) \<and>
   load_data sample_library sample_csv_no_description = Inl KeyError \<and>
   plain_input sample_csv_no_company 0 \<and>
   (\<exists>out. load_data sample_library sample_csv_no_company = Inr out)"
proof -
  have a: "''Business Description'' \<notin> set (columns sample_csv_no_description) \<and>
     ''business_description'' \<notin> set (columns sample_csv_no_description)"
    by (simp add: sample_csv_no_description_def)
  have b: "plain_input sample_csv_no_company 0"
    by (simp add: plain_input_def rectangular_def sample_csv_no_company_def)
  from load_data_missing_description[of sample_csv_no_description sample_library 0]
    load_data_missing_description[of sample_csv_no_company sample_library 0] a b
  show ?thesis by blast
qed

text \<open>
  C8 as stated fails on a file that has no \<^verbatim>\<open>Company Name\<close> column: \<^verbatim>\<open>load_data\<close>
  returns a table (without a company column) instead of failing.
\<close>

theorem load_data_missing_company_counterexample:
  "load_data sample_library sample_csv_no_company =
     Inr \<lparr>columns = [''business_description'', ''cleaned_description'',
                     ''individual_sentences''],
          rows = [[Str ''We advise. We audit.'', Str ''we advise. we audit.'',
                   Str ''we advise.''],
                  [Str ''We advise. We audit.'', Str ''we advise. we audit.'',
                   Str ''we audit.'']]\<rparr>"
  by (simp add: load_defs sample_csv_no_company_def sample_library_def sample_lower_def
      sample_tokenizer_def)

section \<open>Facts about tables as objects\<close>

lemma take_eq_length:
  assumes "take (length ys) xs = ys"
  shows "length ys \<le> length xs"
proof (rule ccontr)
  assume "\<not> length ys \<le> length xs"
  then have "take (length ys) xs = xs" by simp
  with assms have "xs = ys" by simp
  with \<open>\<not> length ys \<le> length xs\<close> show False by simp
qed

lemma keeps_returning: "keeps_tables (returning r)"
  by (simp add: keeps_tables_def returning_def)

lemma keeps_new_table: "keeps_tables (new_table t)"
  by (simp add: keeps_tables_def new_table_def)

lemma keeps_read_sentences: "keeps_tables (read_sentences a)"
  by (simp add: keeps_tables_def read_sentences_def)

lemma keeps_then_do:
  assumes "keeps_tables m" and "\<And>x. keeps_tables (f x)"
  shows "keeps_tables (then_do m f)"
  unfolding keeps_tables_def
proof
  fix store
  obtain r s1 where m: "m store = (r, s1)" by (cases "m store")
  from assms(1) m have 1: "take (length store) s1 = store"
    by (auto simp: keeps_tables_def dest: spec[of _ store])
  then have le: "length store \<le> length s1"
    by (rule take_eq_length)
  show "take (length store) (snd (then_do m f store)) = store"
  proof (cases r)
    case (Inl e)
    with m 1 show ?thesis by (simp add: then_do_def)
  next
    case (Inr x)
    from assms(2)[of x] have "take (length s1) (snd (f x s1)) = s1"
      by (simp add: keeps_tables_def)
    then have "take (length store) (take (length s1) (snd (f x s1))) = take (length store) s1"
      by simp
    with le 1 have "take (length store) (snd (f x s1)) = store"
      by (simp add: min_absorb1)
    with m Inr show ?thesis by (simp add: then_do_def)
  qed
qed

lemma keeps_groupby_names: "keeps_tables (groupby_names a)"
  unfolding groupby_names_def by (intro keeps_then_do keeps_read_sentences keeps_returning)

lemma keeps_groupby_group: "keeps_tables (groupby_group a name)"
  unfolding groupby_group_def by (intro keeps_then_do keeps_read_sentences keeps_new_table)

lemma keeps_select_rows: "keeps_tables (select_rows a keep)"
  unfolding select_rows_def by (intro keeps_then_do keeps_read_sentences keeps_new_table)

lemma keeps_reset_index: "keeps_tables (reset_index a)"
  unfolding reset_index_def by (intro keeps_then_do keeps_read_sentences keeps_new_table)

lemma keeps_iloc_row: "keeps_tables (iloc_row a idx)"
  unfolding iloc_row_def by (intro keeps_then_do keeps_read_sentences keeps_returning)

lemma keeps_exclude_loop_on: "keeps_tables (exclude_loop_on lib a nse names acc)"
proof (induction names arbitrary: acc)
  case Nil
  show ?case by (simp add: keeps_returning)
next
  case (Cons name names)
  show ?case
    unfolding exclude_loop_on.simps
    by (intro keeps_then_do keeps_groupby_group keeps_read_sentences keeps_returning Cons.IH)
qed

lemma keeps_filter_non_similar_on: "keeps_tables (filter_non_similar_on lib a ns)"
  unfolding filter_non_similar_on_def
  by (intro keeps_then_do keeps_groupby_names keeps_exclude_loop_on keeps_select_rows
      keeps_reset_index)

lemma keeps_build_results_on: "keeps_tables (build_results_on a sel)"
proof (induction sel)
  case Nil
  show ?case by (simp add: keeps_returning)
next
  case (Cons p sel)
  obtain score idx where p: "p = (score, idx)" by (cases p)
  show ?case
    unfolding p build_results_on.simps
    by (intro keeps_then_do keeps_iloc_row keeps_returning Cons.IH)
qed

lemma keeps_find_top_similar_on: "keeps_tables (find_top_similar_on lib qs bd a k)"
  unfolding find_top_similar_on_def
  by (intro keeps_then_do keeps_returning keeps_build_results_on keeps_new_table)

lemma keeps_nth:
  assumes "keeps_tables m" and "m store = (r, store')" and "b < length store"
  shows "store' ! b = store ! b"
proof -
  from assms(1,2) have "take (length store) store' = store"
    by (auto simp: keeps_tables_def dest: spec[of _ store])
  then show ?thesis using assms(3) by (metis nth_take)
qed

lemma keeps_length:
  assumes "keeps_tables m" and "m store = (r, store')"
  shows "length store \<le> length store'"
proof -
  from assms have "take (length store) store' = store"
    by (auto simp: keeps_tables_def dest: spec[of _ store])
  then show ?thesis by (rule take_eq_length)
qed

lemma sentences_at_append:
  "sentences_at store a = Inr df \<Longrightarrow> sentences_at (store @ extra) a = Inr df"
  by (auto simp: sentences_at_def nth_append split: if_splits)

lemma sentences_at_new: "sentences_at (store @ [Sentences df]) (length store) = Inr df"
  by (simp add: sentences_at_def)

lemma exclude_loop_on_value:
  assumes "sentences_at store a = Inr df"
  shows "\<exists>extra. exclude_loop_on lib a nse names acc store =
           (exclude_loop lib df nse names acc, store @ extra)"
  using assms
proof (induction names arbitrary: acc store)
  case Nil
  then show ?case by (simp add: returning_def)
next
  case (Cons name names)
  let ?s1 = "store @ [Sentences (group_of df name)]"
  have g: "groupby_group a name store = (Inr (length store), ?s1)"
    using Cons.prems by (simp add: groupby_group_def then_do_def read_sentences_def new_table_def)
  have r: "read_sentences (length store) ?s1 = (Inr (group_of df name), ?s1)"
    by (simp add: read_sentences_def sentences_at_new)
  let ?scan = "scan_group lib (encode_sentences lib (map individual_sentences (group_of df name))) nse"
  show ?case
  proof (cases ?scan)
    case (Inl e)
    then show ?thesis
      by (simp add: then_do_def g r returning_def)
  next
    case (Inr hit)
    have "sentences_at ?s1 a = Inr df"
      by (rule sentences_at_append[OF Cons.prems])
    from Cons.IH[OF this]
    obtain extra where "exclude_loop_on lib a nse names (if hit then insert name acc else acc) ?s1
        = (exclude_loop lib df nse names (if hit then insert name acc else acc), ?s1 @ extra)"
      by blast
    with Inr show ?thesis
      by (simp add: then_do_def g r returning_def)
  qed
qed

lemma filter_non_similar_on_value:
  assumes "sentences_at store a = Inr df"
  shows "\<exists>extra. filter_non_similar_on lib a ns store =
           (case filter_non_similar lib df ns of
              Inl e \<Rightarrow> (Inl e, store @ extra)
            | Inr out \<Rightarrow> (Inr (Suc (length (store @ extra))),
                          store @ extra @ [Sentences out, Sentences out]))"
proof -
  let ?nse = "encode_sentences lib ns"
  have n: "groupby_names a store = (Inr (group_keys df), store)"
    using assms by (simp add: groupby_names_def then_do_def read_sentences_def returning_def)
  from exclude_loop_on_value[OF assms, of lib ?nse "group_keys df" "{}"] obtain extra
    where l: "exclude_loop_on lib a ?nse (group_keys df) {} store =
                (exclude_loop lib df ?nse (group_keys df) {}, store @ extra)" by blast
  show ?thesis
  proof (cases "exclude_loop lib df ?nse (group_keys df) {}")
    case (Inl e)
    with l n have "filter_non_similar_on lib a ns store = (Inl e, store @ extra)"
      by (simp add: filter_non_similar_on_def then_do_def)
    with Inl show ?thesis by (auto simp: filter_non_similar_def)
  next
    case (Inr ex)
    let ?out = "filter (\<lambda>r. company_name r \<notin> ex) df"
    let ?s1 = "store @ extra"
    have s: "select_rows a (\<lambda>r. company_name r \<notin> ex) ?s1 = (Inr (length ?s1), ?s1 @ [Sentences ?out])"
      using sentences_at_append[OF assms, of extra]
      by (simp add: select_rows_def then_do_def read_sentences_def new_table_def)
    have ri: "reset_index (length ?s1) (?s1 @ [Sentences ?out]) =
                (Inr (Suc (length ?s1)), ?s1 @ [Sentences ?out] @ [Sentences ?out])"
      using sentences_at_new[of ?s1 ?out]
      by (simp add: reset_index_def then_do_def read_sentences_def new_table_def)
    from l n Inr s ri have "filter_non_similar_on lib a ns store =
        (Inr (Suc (length ?s1)), ?s1 @ [Sentences ?out] @ [Sentences ?out])"
      by (simp add: filter_non_similar_on_def then_do_def)
    with Inr show ?thesis by (auto simp: filter_non_similar_def)
  qed
qed

lemma build_results_on_value:
  assumes "sentences_at store a = Inr df"
  shows "build_results_on a sel store = (build_results df sel, store)"
proof (induction sel)
  case Nil
  show ?case by (simp add: returning_def)
next
  case (Cons p sel)
  obtain score idx where p: "p = (score, idx)" by (cases p)
  have i: "iloc_row a idx store = (iloc df idx, store)"
    using assms by (simp add: iloc_row_def then_do_def read_sentences_def returning_def)
  show ?case
    unfolding p
    by (simp add: then_do_def i Cons.IH returning_def split: sum.splits)
qed

lemma find_top_similar_on_value:
  assumes "sentences_at store a = Inr df"
  shows "find_top_similar_on lib qs bd a k store =
           (case find_top_similar lib qs bd df k of
              Inl e \<Rightarrow> (Inl e, store)
            | Inr results \<Rightarrow> (Inr (length store), store @ [Results results]))"
  by (simp add: find_top_similar_on_def find_top_similar_def then_do_def returning_def
      build_results_on_value[OF assms] new_table_def split: sum.splits)

lemmas store_defs =
  filter_non_similar_on_def find_top_similar_on_def then_do_def returning_def new_table_def
  read_sentences_def sentences_at_def groupby_names_def groupby_group_def select_rows_def
  reset_index_def iloc_row_def

text \<open>
  C9. Neither the filter nor the ranker changes a table it is given. Run statement by
  statement on the address of a sentence table, each call leaves every table of the
  store, the caller's argument included, where it was and with the rows it had; what the
  call returns is the result of the function on the rows of the argument, held in a table
  at a new address.
\<close>

theorem calls_leave_tables:
  assumes "sentences_at store a = Inr df"
    and "filter_non_similar_on lib a ns store = (r1, store1)"
    and "find_top_similar_on lib qs bd a k store = (r2, store2)"
  shows "(\<forall>b < length store. store1 ! b = store ! b \<and> store2 ! b = store ! b) \<and>
         sentences_at store1 a = Inr df \<and> sentences_at store2 a = Inr df \<and>
         (case r1 of
            Inl e \<Rightarrow> filter_non_similar lib df ns = Inl e
          | Inr n \<Rightarrow> length store \<le> n \<and> filter_non_similar lib df ns = sentences_at store1 n) \<and>
         (case r2 of
            Inl e \<Rightarrow> find_top_similar lib qs bd df k = Inl e
          | Inr n \<Rightarrow> length store \<le> n \<and>
              (\<exists>results. find_top_similar lib qs bd df k = Inr results \<and>
                 n < length store2 \<and> store2 ! n = Results results))"
proof -
  have frame1: "store1 ! b = store ! b" if "b < length store" for b
    using keeps_nth[OF keeps_filter_non_similar_on assms(2) that] .
  have frame2: "store2 ! b = store ! b" if "b < length store" for b
    using keeps_nth[OF keeps_find_top_similar_on assms(3) that] .
  have len1: "length store \<le> length store1"
    using keeps_length[OF keeps_filter_non_similar_on assms(2)] .
  have len2: "length store \<le> length store2"
    using keeps_length[OF keeps_find_top_similar_on assms(3)] .
  have a: "a < length store"
    using assms(1) by (auto simp: sentences_at_def split: if_splits)
  have in1: "sentences_at store1 a = Inr df"
    using assms(1) a len1 frame1[OF a] by (simp add: sentences_at_def)
  have in2: "sentences_at store2 a = Inr df"
    using assms(1) a len2 frame2[OF a] by (simp add: sentences_at_def)
  from filter_non_similar_on_value[OF assms(1), of lib ns] obtain extra where
    f: "filter_non_similar_on lib a ns store =
          (case filter_non_similar lib df ns of
             Inl e \<Rightarrow> (Inl e, store @ extra)
           | Inr out \<Rightarrow> (Inr (Suc (length (store @ extra))),
                         store @ extra @ [Sentences out, Sentences out]))" by blast
  have out1: "case r1 of
            Inl e \<Rightarrow> filter_non_similar lib df ns = Inl e
          | Inr n \<Rightarrow> length store \<le> n \<and> filter_non_similar lib df ns = sentences_at store1 n"
  proof (cases "filter_non_similar lib df ns")
    case (Inl e)
    with f assms(2) show ?thesis by auto
  next
    case (Inr out)
    with f assms(2) have r: "r1 = Inr (Suc (length (store @ extra)))"
      and s: "store1 = (store @ extra @ [Sentences out]) @ [Sentences out]" by auto
    have "sentences_at store1 (Suc (length (store @ extra))) = Inr out"
      unfolding s using sentences_at_new[of "store @ extra @ [Sentences out]" out] by simp
    with r Inr show ?thesis by simp
  qed
  have out2: "case r2 of
            Inl e \<Rightarrow> find_top_similar lib qs bd df k = Inl e
          | Inr n \<Rightarrow> length store \<le> n \<and>
              (\<exists>results. find_top_similar lib qs bd df k = Inr results \<and>
                 n < length store2 \<and> store2 ! n = Results results)"
    using assms(3) unfolding find_top_similar_on_value[OF assms(1)]
    by (cases "find_top_similar lib qs bd df k") auto
  from frame1 frame2 in1 in2 out1 out2 show ?thesis by simp
qed

theorem calls_leave_tables_witness:
  "sentences_at [Sentences sample_table] 0 = Inr sample_table \<and>
   filter_non_similar_on sample_library 0 [''retail lending''] [Sentences sample_table] =
     (Inr 4, [Sentences sample_table, Sentences [alpha_row], Sentences [beta_row],
              Sentences [alpha_row], Sentences [alpha_row]]) \<and>
   find_top_similar_on sample_library [''consultancy''] sample_embeddings 0 1
       [Sentences sample_table] =
     (Inr 1, [Sentences sample_table, Results [make_result alpha_row 1]]) \<and>
   filter_non_similar sample_library sample_table [''retail lending''] = Inr [alpha_row] \<and>
   find_top_similar sample_library [''consultancy''] sample_embeddings sample_table 1 =
     Inr [make_result alpha_row 1]"
proof -
  have a: "sentences_at [Sentences sample_table] 0 = Inr sample_table"
    by (simp add: sentences_at_def)
  have b: "filter_non_similar_on sample_library 0 [''retail lending''] [Sentences sample_table] =
     (Inr 4, [Sentences sample_table, Sentences [alpha_row], Sentences [beta_row],
              Sentences [alpha_row], Sentences [alpha_row]])"
    by (simp add: store_defs filter_defs sample_defs sqrt_25 sqrt_169)
  have c: "find_top_similar_on sample_library [''consultancy''] sample_embeddings 0 1
       [Sentences sample_table] =
     (Inr 1, [Sentences sample_table, Results [make_result alpha_row 1]])"
    by (simp add: store_defs ranker_defs sample_defs sqrt_25)
  from calls_leave_tables[OF a b c] a b c show ?thesis
    by (simp add: sentences_at_def)
qed

end
